theory Spec2Isabelle
  imports Main "HOL-Library.Sublist"
begin

section \<open>Values, dictionaries and errors\<close>

text \<open>
  The logger of \<^verbatim>\<open>pyml_logger/Log.py\<close> stores duck-typed Python values. The
  embedding closes the universe of values: a value is a scalar (\<^verbatim>\<open>None\<close>, a
  boolean, an integer, a string) or a \<^verbatim>\<open>dict\<close> with string keys. A \<^verbatim>\<open>dict\<close>
  is an association list in insertion order with unique keys, which is the iteration
  order of a Python dictionary.
\<close>

datatype scalar = SNone | SBool bool | SInt int | SStr string

datatype pyval = Scalar scalar | Dict "(string \<times> pyval) list"

datatype error = IndexError | KeyError | TypeError | AssertionError

abbreviation PyNone :: pyval where
  "PyNone \<equiv> Scalar SNone"

text \<open>\<^verbatim>\<open>d[k] = v\<close> on a dictionary: an existing key keeps its position, a new key goes last.\<close>

fun dict_set :: "'k \<Rightarrow> 'v \<Rightarrow> ('k \<times> 'v) list \<Rightarrow> ('k \<times> 'v) list" where
  "dict_set k v [] = [(k, v)]"
| "dict_set k v (p # ps) = (if fst p = k then (k, v) # ps else p # dict_set k v ps)"

definition dict_keys :: "('k \<times> 'v) list \<Rightarrow> 'k list" where
  "dict_keys d = map fst d"

text \<open>
  The three object protocols the logger relies on, with the \<^verbatim>\<open>TypeError\<close> and
  \<^verbatim>\<open>KeyError\<close> Python raises: \<^verbatim>\<open>k in obj\<close> (a substring test when \<^verbatim>\<open>obj\<close>
  is a string), \<^verbatim>\<open>obj[k]\<close> and \<^verbatim>\<open>obj[k] = v\<close>.
\<close>

fun contains :: "pyval \<Rightarrow> string \<Rightarrow> error + bool" where
  "contains (Dict d) k = Inr (map_of d k \<noteq> None)"
| "contains (Scalar (SStr s)) k = Inr (sublist k s)"
| "contains (Scalar _) k = Inl TypeError"

fun getitem :: "pyval \<Rightarrow> string \<Rightarrow> error + pyval" where
  "getitem (Dict d) k = (case map_of d k of None \<Rightarrow> Inl KeyError | Some v \<Rightarrow> Inr v)"
| "getitem (Scalar _) k = Inl TypeError"

fun setitem :: "pyval \<Rightarrow> string \<Rightarrow> pyval \<Rightarrow> error + pyval" where
  "setitem (Dict d) k v = Inr (Dict (dict_set k v d))"
| "setitem (Scalar _) k v = Inl TypeError"

text \<open>\<^verbatim>\<open>xs[i]\<close> on a list: a negative index counts from the end, out of range raises.\<close>

definition py_index :: "'a list \<Rightarrow> int \<Rightarrow> error + nat" where
  "py_index xs i =
     (let n = int (length xs); j = (if i < 0 then n + i else i)
      in if 0 \<le> j \<and> j < n then Inr (nat j) else Inl IndexError)"

text \<open>\<^verbatim>\<open>s.split(sep)\<close> for a one-character separator, and \<^verbatim>\<open>sep.join(xs)\<close>.\<close>

fun split :: "char \<Rightarrow> string \<Rightarrow> string list" where
  "split sep [] = [[]]"
| "split sep (c # cs) =
     (if c = sep then [] # split sep cs
      else (case split sep cs of [] \<Rightarrow> [[c]] | w # ws \<Rightarrow> (c # w) # ws))"

fun join :: "string \<Rightarrow> string list \<Rightarrow> string" where
  "join sep [] = []"
| "join sep [x] = x"
| "join sep (x # y # ys) = x @ sep @ join sep (y # ys)"

section \<open>The class \<^verbatim>\<open>Log\<close>\<close>

text \<open>
  The fields of \<^verbatim>\<open>Log.__init__\<close>. \<^verbatim>\<open>file\<close> and \<^verbatim>\<open>vis\<close> are never read by the
  recording, lookup and export methods and are left out. Each element of \<^verbatim>\<open>d_var\<close>
  is the dictionary of one iteration.
\<close>

record log =
  s_var :: "(string \<times> pyval) list"
  d_var :: "(string \<times> pyval) list list"
  t :: int
  scopes :: "string list"

definition ITERATION_KEY :: string where
  "ITERATION_KEY = ''_iteration''"

definition SCOPE_SEP :: char where
  "SCOPE_SEP = CHR ''.''"

definition init :: log where
  "init = \<lparr>s_var = [], d_var = [], t = - 1, scopes = []\<rparr>"

text \<open>
  A method mutates the object and either returns or raises: it is a function from the
  object to the outcome paired with the object as the call leaves it, so that what an
  aborted call has already written stays visible.
\<close>

type_synonym 'a outcome = "(error + 'a) \<times> log"

definition push_scope :: "string \<Rightarrow> log \<Rightarrow> log" where
  "push_scope name l = l\<lparr>scopes := scopes l @ [name]\<rparr>"

text \<open>The argument of \<^verbatim>\<open>push_scopes\<close>: \<^verbatim>\<open>None\<close>, a string, or a sequence of names.\<close>

datatype names_arg = NoNames | StrNames string | SeqNames "string list"

definition push_scopes :: "names_arg \<Rightarrow> log \<Rightarrow> nat \<times> log" where
  "push_scopes names l =
     (case names of
        NoNames \<Rightarrow> (0, l)
      | StrNames s \<Rightarrow> (let ns = split SCOPE_SEP s in (length ns, fold push_scope ns l))
      | SeqNames ns \<Rightarrow> (length ns, fold push_scope ns l))"

definition pop_scope :: "log \<Rightarrow> string outcome" where
  "pop_scope l =
     (if scopes l = [] then (Inl IndexError, l)
      else (Inr (last (scopes l)), l\<lparr>scopes := butlast (scopes l)\<rparr>))"

fun pop_loop :: "nat \<Rightarrow> log \<Rightarrow> unit outcome" where
  "pop_loop 0 l = (Inr (), l)"
| "pop_loop (Suc n) l =
     (case pop_scope l of
        (Inl e, l') \<Rightarrow> (Inl e, l')
      | (Inr _, l') \<Rightarrow> pop_loop n l')"

text \<open>\<^verbatim>\<open>range(n)\<close> is empty for a negative \<^verbatim>\<open>n\<close>.\<close>

definition pop_scopes :: "int \<Rightarrow> log \<Rightarrow> unit outcome" where
  "pop_scopes n l = pop_loop (nat n) l"

definition add_static_value :: "string \<Rightarrow> pyval \<Rightarrow> log \<Rightarrow> log" where
  "add_static_value key v l = l\<lparr>s_var := dict_set key v (s_var l)\<rparr>"

definition add_static_values :: "(string \<times> pyval) list \<Rightarrow> log \<Rightarrow> log" where
  "add_static_values kwargs l = fold (\<lambda>(k, v). add_static_value k v) kwargs l"

text \<open>
  The loop and the final assignment of \<^verbatim>\<open>add_dynamic_value\<close>, on the object \<^verbatim>\<open>tt\<close>:
  the result is \<^verbatim>\<open>tt\<close> after the in-place writes. A \<^verbatim>\<open>TypeError\<close> arises only at an
  existing non-dictionary value, hence before any dictionary was created on the way:
  the tree is then as it was.
\<close>

fun add_walk :: "pyval \<Rightarrow> string list \<Rightarrow> string \<Rightarrow> pyval \<Rightarrow> error + pyval" where
  "add_walk tt [] key v = setitem tt key v"
| "add_walk tt (s # ss) key v =
     (case contains tt s of
        Inl e \<Rightarrow> Inl e
      | Inr present \<Rightarrow>
          (case (if \<not> present then setitem tt s (Dict []) else Inr tt) of
             Inl e \<Rightarrow> Inl e
           | Inr tt1 \<Rightarrow>
               (case getitem tt1 s of
                  Inl e \<Rightarrow> Inl e
                | Inr sub \<Rightarrow>
                    (case add_walk sub ss key v of
                       Inl e \<Rightarrow> Inl e
                     | Inr sub' \<Rightarrow> setitem tt1 s sub'))))"

definition add_dynamic_value :: "string \<Rightarrow> pyval \<Rightarrow> log \<Rightarrow> unit outcome" where
  "add_dynamic_value key v l =
     (case py_index (d_var l) (t l) of
        Inl e \<Rightarrow> (Inl e, l)
      | Inr i \<Rightarrow>
          (case add_walk (Dict (d_var l ! i)) (scopes l) key v of
             Inr (Dict d) \<Rightarrow> (Inr (), l\<lparr>d_var := (d_var l)[i := d]\<rparr>)
           | Inr (Scalar _) \<Rightarrow> (Inl TypeError, l)
           | Inl e \<Rightarrow> (Inl e, l)))"

definition new_iteration :: "log \<Rightarrow> unit outcome" where
  "new_iteration l =
     (let l1 = l\<lparr>t := t l + 1\<rparr>;
          l2 = l1\<lparr>d_var := d_var l1 @ [[]]\<rparr>
      in case add_dynamic_value ITERATION_KEY (Scalar (SInt (t l2))) l2 of
           (Inl e, l3) \<Rightarrow> (Inl e, l3)
         | (Inr _, l3) \<Rightarrow> (Inr (), l3\<lparr>scopes := []\<rparr>))"

fun add_loop :: "(string \<times> pyval) list \<Rightarrow> log \<Rightarrow> unit outcome" where
  "add_loop [] l = (Inr (), l)"
| "add_loop ((k, v) # kvs) l =
     (case add_dynamic_value k v l of
        (Inl e, l') \<Rightarrow> (Inl e, l')
      | (Inr _, l') \<Rightarrow> add_loop kvs l')"

definition add_dynamic_values :: "names_arg \<Rightarrow> (string \<times> pyval) list \<Rightarrow> log \<Rightarrow> unit outcome" where
  "add_dynamic_values scope_arg kwargs l =
     (case push_scopes scope_arg l of
        (n_scopes, l1) \<Rightarrow>
          (case add_loop kwargs l1 of
             (Inl e, l2) \<Rightarrow> (Inl e, l2)
           | (Inr _, l2) \<Rightarrow> pop_scopes (int n_scopes) l2))"

text \<open>
  \<^verbatim>\<open>get_state\<close> and \<^verbatim>\<open>set_state\<close>. The assignment to \<^verbatim>\<open>self.t\<close> is the first
  statement of \<^verbatim>\<open>set_state\<close>, the assertion the second.
\<close>

record state =
  st_t :: int
  st_d_var :: "(string \<times> pyval) list list"

definition get_state :: "log \<Rightarrow> state" where
  "get_state l = \<lparr>st_t = t l, st_d_var = d_var l\<rparr>"

definition set_state :: "state \<Rightarrow> log \<Rightarrow> unit outcome" where
  "set_state st l =
     (let l1 = l\<lparr>t := st_t st\<rparr>
      in if length (d_var l1) \<noteq> 0 then (Inl AssertionError, l1)
         else (Inr (), l1\<lparr>d_var := d_var l1 @ st_d_var st\<rparr>))"

text \<open>Running a call for its effect on the object only.\<close>

definition after :: "'a outcome \<Rightarrow> log" where
  "after r = snd r"

section \<open>Lookup\<close>

text \<open>\<^verbatim>\<open>if key in values: res = values[key]\<close>, giving the new \<^verbatim>\<open>res\<close>.\<close>

definition pick :: "pyval \<Rightarrow> string \<Rightarrow> pyval \<Rightarrow> error + pyval" where
  "pick vals key res =
     (case contains vals key of
        Inl e \<Rightarrow> Inl e
      | Inr present \<Rightarrow> if present then getitem vals key else Inr res)"

text \<open>The loop of \<^verbatim>\<open>get_last_dynamic_value\<close>; \<^verbatim>\<open>break\<close> returns the current \<^verbatim>\<open>res\<close>.\<close>

fun last_loop :: "pyval \<Rightarrow> pyval \<Rightarrow> string list \<Rightarrow> string \<Rightarrow> error + pyval" where
  "last_loop vals res [] key = Inr res"
| "last_loop vals res (s # ss) key =
     (case contains vals s of
        Inl e \<Rightarrow> Inl e
      | Inr present \<Rightarrow>
          if \<not> present then Inr res
          else (case getitem vals s of
                  Inl e \<Rightarrow> Inl e
                | Inr vals' \<Rightarrow>
                    (case pick vals' key res of
                       Inl e \<Rightarrow> Inl e
                     | Inr res' \<Rightarrow> last_loop vals' res' ss key)))"

definition get_last_dynamic_value :: "string \<Rightarrow> log \<Rightarrow> error + pyval" where
  "get_last_dynamic_value key l =
     (case py_index (d_var l) (t l) of
        Inl e \<Rightarrow> Inl e
      | Inr i \<Rightarrow>
          (case pick (Dict (d_var l ! i)) key PyNone of
             Inl e \<Rightarrow> Inl e
           | Inr res \<Rightarrow> last_loop (Dict (d_var l ! i)) res (scopes l) key))"

text \<open>The loop of \<^verbatim>\<open>get_scoped_value\<close> over the segments of the name.\<close>

fun scoped_walk :: "pyval \<Rightarrow> string list \<Rightarrow> error + pyval" where
  "scoped_walk tt [] = Inr tt"
| "scoped_walk tt (s # ss) =
     (case contains tt s of
        Inl e \<Rightarrow> Inl e
      | Inr present \<Rightarrow>
          if \<not> present then Inr PyNone
          else (case getitem tt s of
                  Inl e \<Rightarrow> Inl e
                | Inr tt' \<Rightarrow> scoped_walk tt' ss))"

definition get_scoped_value :: "int \<Rightarrow> string \<Rightarrow> log \<Rightarrow> error + pyval" where
  "get_scoped_value ti name l =
     (case py_index (d_var l) ti of
        Inl e \<Rightarrow> Inl e
      | Inr i \<Rightarrow> scoped_walk (Dict (d_var l ! i)) (split CHR ''.'' name))"

section \<open>Column names\<close>

text \<open>
  A Python \<^verbatim>\<open>set\<close> of strings is a list without duplicates, in the order the elements
  were first added. The order in which Python iterates a set is unspecified: wherever
  the source turns a set into a list, the embedding applies a function \<open>ord\<close> that is a
  parameter of the model, and the theorems hold for every \<open>ord\<close> that only rearranges
  its argument (\<open>set_order\<close>).
\<close>

definition set_add :: "'a \<Rightarrow> 'a list \<Rightarrow> 'a list" where
  "set_add x xs = (if x \<in> set xs then xs else xs @ [x])"

definition set_update :: "'a list \<Rightarrow> 'a list \<Rightarrow> 'a list" where
  "set_update xs ys = fold set_add ys xs"

definition set_order :: "(string list \<Rightarrow> string list) \<Rightarrow> bool" where
  "set_order ord = (\<forall>xs. distinct xs \<longrightarrow> set (ord xs) = set xs \<and> distinct (ord xs))"

text \<open>
  \<^verbatim>\<open>_generate_columns_names_from_dict(d, scope)\<close>: the loop over the items of \<^verbatim>\<open>d\<close>
  with the set \<^verbatim>\<open>columns\<close> built so far. \<^verbatim>\<open>scope.append(k)\<close> before and \<^verbatim>\<open>scope.pop()\<close>
  after the recursive call amount to passing \<^verbatim>\<open>scope + [k]\<close>.
\<close>

fun columns_loop :: "(string \<times> pyval) list \<Rightarrow> string list \<Rightarrow> string list \<Rightarrow> string list" where
  "columns_loop [] scope columns = columns"
| "columns_loop ((k, Dict sub) # rest) scope columns =
     columns_loop rest scope (set_update columns (columns_loop sub (scope @ [k]) []))"
| "columns_loop ((k, Scalar c) # rest) scope columns =
     columns_loop rest scope (set_add (join ''.'' (scope @ [k])) columns)"

definition generate_columns_names_from_dict :: "(string \<times> pyval) list \<Rightarrow> string list \<Rightarrow> string list" where
  "generate_columns_names_from_dict d scope = columns_loop d scope []"

fun names_loop :: "nat list \<Rightarrow> log \<Rightarrow> string list \<Rightarrow> error + string list" where
  "names_loop [] l columns = Inr columns"
| "names_loop (i # is) l columns =
     (case py_index (d_var l) (int i) of
        Inl e \<Rightarrow> Inl e
      | Inr j \<Rightarrow>
          names_loop is l
            (set_update columns (generate_columns_names_from_dict (d_var l ! j) [])))"

definition generate_columns_names :: "(string list \<Rightarrow> string list) \<Rightarrow> log \<Rightarrow> error + string list" where
  "generate_columns_names ord l =
     (case names_loop [0..<nat (t l + 1)] l [] of
        Inl e \<Rightarrow> Inl e
      | Inr columns \<Rightarrow> Inr (ord columns))"

section \<open>Tables\<close>

text \<open>
  A loop that appends one computed element per item and stops at the first exception.
\<close>

fun collect :: "('a \<Rightarrow> error + 'b) \<Rightarrow> 'a list \<Rightarrow> error + 'b list" where
  "collect f [] = Inr []"
| "collect f (x # xs) =
     (case f x of
        Inl e \<Rightarrow> Inl e
      | Inr y \<Rightarrow> (case collect f xs of Inl e \<Rightarrow> Inl e | Inr ys \<Rightarrow> Inr (y # ys)))"

text \<open>
  A table is the list the export methods return: the row of column names first, then
  one row of cells per iteration. A column name in the first row is the string value.
\<close>

definition name_cell :: "string \<Rightarrow> pyval" where
  "name_cell name = Scalar (SStr name)"

definition to_array :: "(string list \<Rightarrow> string list) \<Rightarrow> log \<Rightarrow> error + pyval list list" where
  "to_array ord l =
     (case generate_columns_names ord l of
        Inl e \<Rightarrow> Inl e
      | Inr names \<Rightarrow>
          (case collect (\<lambda>i. collect (\<lambda>name. get_scoped_value (int i) name l) names)
                  [0..<length (d_var l)] of
             Inl e \<Rightarrow> Inl e
           | Inr rows \<Rightarrow> Inr (map name_cell names # rows)))"

text \<open>The list \<^verbatim>\<open>names\<close> of \<^verbatim>\<open>to_extended_array\<close> and the cell of one row under one name.\<close>

definition extended_names :: "(string list \<Rightarrow> string list) \<Rightarrow> log \<Rightarrow> error + string list" where
  "extended_names ord l =
     (case generate_columns_names ord l of
        Inl e \<Rightarrow> Inl e
      | Inr names \<Rightarrow> Inr ((''_iteration'' # names) @ map (\<lambda>k. ''_s_'' @ k) (dict_keys (s_var l))))"

definition extended_cell :: "log \<Rightarrow> nat \<Rightarrow> string \<Rightarrow> error + pyval" where
  "extended_cell l i name =
     (if prefix ''_s_'' name then getitem (Dict (s_var l)) (drop 3 name)
      else if name = ''_iteration'' then Inr (Scalar (SInt (int i)))
      else get_scoped_value (int i) name l)"

definition to_extended_array :: "(string list \<Rightarrow> string list) \<Rightarrow> log \<Rightarrow> error + pyval list list" where
  "to_extended_array ord l =
     (case extended_names ord l of
        Inl e \<Rightarrow> Inl e
      | Inr names \<Rightarrow>
          (case collect (\<lambda>i. collect (extended_cell l i) names) [0..<length (d_var l)] of
             Inl e \<Rightarrow> Inl e
           | Inr rows \<Rightarrow> Inr (map name_cell names # rows)))"

section \<open>Merging logs\<close>

text \<open>
  \<^verbatim>\<open>logs_to_dataframe\<close>. Unpickling a file gives a \<^verbatim>\<open>Log\<close>: the argument is the list
  of the file names, each with the log stored under it. The inner loop over the column
  names of one table updates the index of the table and the dictionary of all columns.
\<close>

fun header_loop ::
  "pyval list \<Rightarrow> nat \<Rightarrow> (pyval \<times> nat) list \<Rightarrow> (pyval \<times> nat) list
     \<Rightarrow> (pyval \<times> nat) list \<times> (pyval \<times> nat) list" where
  "header_loop [] j index all_columns = (index, all_columns)"
| "header_loop (c # cs) j index all_columns =
     header_loop cs (Suc j) (dict_set c j index) (dict_set c 1 all_columns)"

fun indexes_loop ::
  "pyval list list list \<Rightarrow> (pyval \<times> nat) list
     \<Rightarrow> error + ((pyval \<times> nat) list list \<times> (pyval \<times> nat) list)" where
  "indexes_loop [] all_columns = Inr ([], all_columns)"
| "indexes_loop (arr # arrs) all_columns =
     (case arr of
        [] \<Rightarrow> Inl IndexError
      | columns_names # _ \<Rightarrow>
          (case header_loop columns_names 0 [] all_columns of
             (index, all_columns') \<Rightarrow>
               (case indexes_loop arrs all_columns' of
                  Inl e \<Rightarrow> Inl e
                | Inr (indexes, all_columns'') \<Rightarrow> Inr (index # indexes, all_columns''))))"

definition merged_cell ::
  "nat \<Rightarrow> string \<Rightarrow> (pyval \<times> nat) list \<Rightarrow> pyval list \<Rightarrow> pyval \<Rightarrow> error + pyval" where
  "merged_cell i filename index line column_name =
     (if column_name = name_cell ''_log_file'' then Inr (Scalar (SStr filename))
      else if column_name = name_cell ''_log_idx'' then Inr (Scalar (SInt (int i)))
      else (case map_of index column_name of
              None \<Rightarrow> Inr PyNone
            | Some idx \<Rightarrow> if idx < length line then Inr (line ! idx) else Inl IndexError))"

definition merged_rows ::
  "nat \<Rightarrow> string \<Rightarrow> (pyval \<times> nat) list \<Rightarrow> pyval list list \<Rightarrow> pyval list
     \<Rightarrow> error + pyval list list" where
  "merged_rows i filename index arr all_names =
     collect (\<lambda>rt. collect (merged_cell i filename index (arr ! Suc rt)) all_names)
       [0..<length arr - 1]"

fun rows_loop ::
  "nat \<Rightarrow> pyval list list list \<Rightarrow> string list \<Rightarrow> (pyval \<times> nat) list list \<Rightarrow> pyval list
     \<Rightarrow> error + pyval list list" where
  "rows_loop i [] filenames indexes all_names = Inr []"
| "rows_loop i (arr # arrs) (filename # filenames) (index # indexes) all_names =
     (case merged_rows i filename index arr all_names of
        Inl e \<Rightarrow> Inl e
      | Inr rows \<Rightarrow>
          (case rows_loop (Suc i) arrs filenames indexes all_names of
             Inl e \<Rightarrow> Inl e
           | Inr rest \<Rightarrow> Inr (rows @ rest)))"
| "rows_loop i (arr # arrs) filenames indexes all_names = Inl IndexError"

text \<open>The result is the pair of \<^verbatim>\<open>columns\<close> and \<^verbatim>\<open>data\<close> handed to \<^verbatim>\<open>pd.DataFrame\<close>.\<close>

definition logs_to_dataframe ::
  "(string list \<Rightarrow> string list) \<Rightarrow> (string \<times> log) list \<Rightarrow> error + (pyval list \<times> pyval list list)" where
  "logs_to_dataframe ord files =
     (case collect (\<lambda>(f, l). to_extended_array ord l) files of
        Inl e \<Rightarrow> Inl e
      | Inr arrays \<Rightarrow>
          (case indexes_loop arrays [] of
             Inl e \<Rightarrow> Inl e
           | Inr (indexes, all_columns) \<Rightarrow>
               (let all_names =
                      [name_cell ''_log_idx'', name_cell ''_log_file''] @ dict_keys all_columns
                in case rows_loop 0 arrays (map fst files) indexes all_names of
                     Inl e \<Rightarrow> Inl e
                   | Inr retour \<Rightarrow> Inr (all_names, retour))))"

section \<open>Notions used to state the properties\<close>

text \<open>
  The recording calls of a \<^verbatim>\<open>Log\<close>, and the object as one call leaves it, whether the
  call returned or raised.
\<close>

datatype call =
    NewIteration
  | PushScope string
  | PushScopes names_arg
  | PopScope
  | PopScopes int
  | AddStaticValue string pyval
  | AddStaticValues "(string \<times> pyval) list"
  | AddDynamicValue string pyval
  | AddDynamicValues names_arg "(string \<times> pyval) list"

fun apply_call :: "call \<Rightarrow> log \<Rightarrow> log" where
  "apply_call NewIteration l = after (new_iteration l)"
| "apply_call (PushScope name) l = push_scope name l"
| "apply_call (PushScopes names) l = snd (push_scopes names l)"
| "apply_call PopScope l = after (pop_scope l)"
| "apply_call (PopScopes n) l = after (pop_scopes n l)"
| "apply_call (AddStaticValue key v) l = add_static_value key v l"
| "apply_call (AddStaticValues kwargs) l = add_static_values kwargs l"
| "apply_call (AddDynamicValue key v) l = after (add_dynamic_value key v l)"
| "apply_call (AddDynamicValues scope_arg kwargs) l = after (add_dynamic_values scope_arg kwargs l)"

text \<open>The number of recorded iterations is the current index plus one.\<close>

definition consistent :: "log \<Rightarrow> bool" where
  "consistent l = (int (length (d_var l)) = t l + 1)"

text \<open>
  The nested dictionary that a path of keys addresses in a tree: every key of the
  path is present and holds a dictionary.
\<close>

fun subtree_at :: "(string \<times> pyval) list \<Rightarrow> string list \<Rightarrow> (string \<times> pyval) list option" where
  "subtree_at d [] = Some d"
| "subtree_at d (s # ss) =
     (case map_of d s of
        Some (Dict sub) \<Rightarrow> subtree_at sub ss
      | _ \<Rightarrow> None)"

text \<open>
  Example logs. \<^verbatim>\<open>log_a\<close> records \<^verbatim>\<open>x\<close> in two iterations, \<^verbatim>\<open>log_b\<close> records \<^verbatim>\<open>y\<close> in
  one; \<^verbatim>\<open>log_c\<close> has the static key \<^verbatim>\<open>x\<close> and a dynamic value named \<^verbatim>\<open>_s_x\<close>;
  \<^verbatim>\<open>log_d\<close> records \<^verbatim>\<open>loss\<close> under the scopes pushed by \<^verbatim>\<open>push_scopes("train.deep")\<close>.
\<close>

definition log_a :: log where
  "log_a =
     after (add_dynamic_value ''x'' (Scalar (SInt 7)) (after (new_iteration
       (after (add_dynamic_value ''x'' (Scalar (SInt 5)) (after (new_iteration init)))))))"

definition log_b :: log where
  "log_b = after (add_dynamic_value ''y'' (Scalar (SInt 9)) (after (new_iteration init)))"

definition log_c :: log where
  "log_c =
     add_static_value ''x'' (Scalar (SInt 7))
       (after (add_dynamic_value ''_s_x'' (Scalar (SInt 1)) (after (new_iteration init))))"

definition log_d :: log where
  "log_d =
     after (add_dynamic_value ''loss'' (Scalar (SInt 2))
       (snd (push_scopes (StrNames ''train.deep'') (after (new_iteration init)))))"

section \<open>Basic facts about the containers\<close>

lemma map_of_dict_set: "map_of (dict_set k v d) = (map_of d)(k \<mapsto> v)"
  by (induction d) (auto simp: fun_eq_iff)

lemma py_index_Inr: "py_index xs i = Inr j \<Longrightarrow> j < length xs"
  by (auto simp: py_index_def Let_def split: if_splits)

lemma py_index_update: "py_index (xs[i := x]) j = py_index xs j"
  by (simp add: py_index_def)

lemma py_index_nat: "0 \<le> i \<Longrightarrow> i < int (length xs) \<Longrightarrow> py_index xs i = Inr (nat i)"
  by (simp add: py_index_def)

lemma fold_push_scope: "fold push_scope ns l = l\<lparr>scopes := scopes l @ ns\<rparr>"
  by (induction ns arbitrary: l) (simp_all add: push_scope_def)

lemma split_not_Nil: "split sep s \<noteq> []"
  by (induction s) (auto split: list.splits)

lemma length_split: "length (split sep s) = Suc (count_list s sep)"
  by (induction s) (auto split: list.splits simp: split_not_Nil)

lemma split_no_sep: "sep \<notin> set s \<Longrightarrow> split sep s = [s]"
  by (induction s) auto

lemma split_append_sep: "sep \<notin> set s \<Longrightarrow> split sep (s @ sep # r) = s # split sep r"
  by (induction s) auto

lemma split_join:
  "ss \<noteq> [] \<Longrightarrow> \<forall>s\<in>set ss. sep \<notin> set s \<Longrightarrow> split sep (join [sep] ss) = ss"
proof (induction "[sep]" ss rule: join.induct)
  case 1
  then show ?case by simp
next
  case (2 x)
  then show ?case by (simp add: split_no_sep)
next
  case (3 x y ys)
  then show ?case by (simp add: split_append_sep)
qed

lemma join_Cons_Cons: "ws \<noteq> [] \<Longrightarrow> join sep ([] # ws) = sep @ join sep ws"
  by (cases ws) simp_all

lemma join_head: "join sep ((c # w) # ws) = c # join sep (w # ws)"
  by (cases ws) simp_all

lemma join_split: "join [sep] (split sep name) = name"
proof (induction name)
  case Nil
  then show ?case by simp
next
  case (Cons c cs)
  show ?case
  proof (cases "c = sep")
    case True
    with Cons show ?thesis by (simp add: join_Cons_Cons split_not_Nil)
  next
    case False
    obtain w ws where s: "split sep cs = w # ws" using split_not_Nil [of sep cs] by (cases "split sep cs") auto
    with False Cons show ?thesis by (simp add: join_head)
  qed
qed

lemma split_segments: "s \<in> set (split sep name) \<Longrightarrow> sep \<notin> set s"
proof (induction name arbitrary: s)
  case Nil
  then show ?case by simp
next
  case (Cons c cs)
  obtain w ws where s: "split sep cs = w # ws" using split_not_Nil [of sep cs] by (cases "split sep cs") auto
  with Cons.IH [of w] Cons.IH have "sep \<notin> set w" "\<forall>x\<in>set ws. sep \<notin> set x" by simp_all
  with Cons.prems s show ?case by (auto split: if_splits)
qed

lemma pop_loop_pushed: "pop_loop (length ns) (l\<lparr>scopes := scopes l @ ns\<rparr>) = (Inr (), l)"
proof (induction ns rule: rev_induct)
  case Nil
  then show ?case by simp
next
  case (snoc x xs)
  have "pop_scope (l\<lparr>scopes := scopes l @ xs @ [x]\<rparr>) = (Inr x, l\<lparr>scopes := scopes l @ xs\<rparr>)"
    by (simp add: pop_scope_def butlast_append)
  with snoc show ?case by simp
qed

section \<open>Starting an iteration\<close>

text \<open>
  C1. \<^verbatim>\<open>new_iteration\<close> records the key \<^verbatim>\<open>_iteration\<close> through \<^verbatim>\<open>add_dynamic_value\<close>
  while the scopes of the previous iteration are still active, and empties \<^verbatim>\<open>scopes\<close>
  only afterwards. After \<^verbatim>\<open>new_iteration(); push_scope("train"); new_iteration()\<close>
  the tree of iteration 1 holds \<^verbatim>\<open>_iteration\<close> under \<^verbatim>\<open>train\<close> and has no such key
  at its top level: looking the name up in iteration 1 gives \<^verbatim>\<open>None\<close>.
\<close>

theorem new_iteration_under_scope:
  "after (new_iteration (push_scope ''train'' (after (new_iteration init)))) =
     \<lparr>s_var = [],
      d_var = [[(''_iteration'', Scalar (SInt 0))],
               [(''train'', Dict [(''_iteration'', Scalar (SInt 1))])]],
      t = 1, scopes = []\<rparr>
   \<and> get_scoped_value 1 ''_iteration''
        (after (new_iteration (push_scope ''train'' (after (new_iteration init))))) = Inr PyNone"
  by code_simp

section \<open>Restoring a state\<close>

text \<open>
  C2. \<^verbatim>\<open>set_state\<close> on a log that already holds an iteration raises the
  \<^verbatim>\<open>AssertionError\<close>, but it has assigned \<^verbatim>\<open>self.t\<close> before: on the log with one
  iteration (index 0) and the state \<^verbatim>\<open>{'t': 5, 'd_var': []}\<close> the call raises and
  leaves the index at 5, the iterations untouched.
\<close>

theorem set_state_not_empty:
  "set_state \<lparr>st_t = 5, st_d_var = []\<rparr> (after (new_iteration init)) =
     (Inl AssertionError,
      \<lparr>s_var = [], d_var = [[(''_iteration'', Scalar (SInt 0))]], t = 5, scopes = []\<rparr>)
   \<and> t (after (new_iteration init)) = 0"
  by code_simp

section \<open>The shadowed lookup\<close>

lemma add_dynamic_value_top:
  assumes "scopes l = []" "py_index (d_var l) (t l) = Inr i"
  shows "add_dynamic_value key v l = (Inr (), l\<lparr>d_var := (d_var l)[i := dict_set key v (d_var l ! i)]\<rparr>)"
  using assms by (simp add: add_dynamic_value_def)

lemma add_walk_one_scope:
  assumes "\<forall>c. map_of d0 s \<noteq> Some (Scalar c)"
  obtains d sub where "add_walk (Dict d0) [s] key v = Inr (Dict d)"
    and "map_of d = (map_of d0)(s \<mapsto> Dict sub)" and "map_of sub key = Some v"
proof (cases "map_of d0 s")
  case None
  show thesis
    by (rule that [of "dict_set s (Dict [(key, v)]) (dict_set s (Dict []) d0)" "[(key, v)]"])
      (simp_all add: None map_of_dict_set)
next
  case (Some a)
  with assms obtain sub0 where a: "a = Dict sub0" by (cases a) auto
  show thesis
    by (rule that [of "dict_set s (Dict (dict_set key v sub0)) d0" "dict_set key v sub0"])
      (simp_all add: Some a map_of_dict_set)
qed

lemma add_dynamic_value_one_scope:
  assumes "scopes l = [s]" and "py_index (d_var l) (t l) = Inr i"
    and "\<forall>c. map_of (d_var l ! i) s \<noteq> Some (Scalar c)"
  obtains d sub where
    "add_dynamic_value key v l = (Inr (), l\<lparr>d_var := (d_var l)[i := d]\<rparr>)"
    and "map_of d = (map_of (d_var l ! i))(s \<mapsto> Dict sub)" and "map_of sub key = Some v"
proof -
  from add_walk_one_scope [OF assms(3), of key v] obtain d sub where
    w: "add_walk (Dict (d_var l ! i)) [s] key v = Inr (Dict d)"
    and m: "map_of d = (map_of (d_var l ! i))(s \<mapsto> Dict sub)" "map_of sub key = Some v"
    by blast
  have "add_dynamic_value key v l = (Inr (), l\<lparr>d_var := (d_var l)[i := d]\<rparr>)"
    unfolding add_dynamic_value_def by (simp add: assms(1,2) w del: add_walk.simps)
  then show thesis using m by (rule that)
qed

lemma last_value_shadow:
  assumes "py_index (d_var l) (t l) = Inr i"
    and "map_of (d_var l ! i) key = Some v1"
    and "map_of (d_var l ! i) s = Some (Dict sub)"
    and "map_of sub key = Some v2"
    and "scopes l = [s]"
  shows "get_last_dynamic_value key l = Inr v2"
  using assms by (simp add: get_last_dynamic_value_def pick_def)

lemma last_value_missing_scope:
  assumes "py_index (d_var l) (t l) = Inr i"
    and "map_of (d_var l ! i) key = Some v1"
    and "map_of (d_var l ! i) s = None"
    and "scopes l = [s]"
  shows "get_last_dynamic_value key l = Inr v1"
  using assms by (simp add: get_last_dynamic_value_def pick_def)

lemma shadow_start: "after (new_iteration init) = \<lparr>s_var = [], d_var = [[(''_iteration'', Scalar (SInt 0))]], t = 0, scopes = []\<rparr>"
  by code_simp

text \<open>
  C3. Take a log with a current iteration and no active scope, in whose current tree
  \<^verbatim>\<open>train\<close> is not a scalar and \<^verbatim>\<open>eval\<close> is absent. Record \<^verbatim>\<open>loss = 1\<close>, push
  \<^verbatim>\<open>train\<close>, record \<^verbatim>\<open>loss = 2\<close>: the active scopes are \<^verbatim>\<open>["train"]\<close> and
  \<^verbatim>\<open>get_last_dynamic_value("loss")\<close> returns 2. Pop \<^verbatim>\<open>train\<close> and push \<^verbatim>\<open>eval\<close>:
  the lookup returns 1, the value found at the top level, and raises nothing.
\<close>

theorem shadow_law:
  assumes "scopes l0 = []" and "py_index (d_var l0) (t l0) = Inr i"
    and "\<forall>c. map_of (d_var l0 ! i) ''train'' \<noteq> Some (Scalar c)"
    and "map_of (d_var l0 ! i) ''eval'' = None"
    and "l1 = after (add_dynamic_value ''loss'' (Scalar (SInt 1)) l0)"
    and "l2 = after (add_dynamic_value ''loss'' (Scalar (SInt 2)) (push_scope ''train'' l1))"
  shows "scopes l2 = [''train'']
     \<and> get_last_dynamic_value ''loss'' l2 = Inr (Scalar (SInt 2))
     \<and> get_last_dynamic_value ''loss'' (push_scope ''eval'' (after (pop_scope l2))) = Inr (Scalar (SInt 1))"
proof -
  let ?d1 = "dict_set ''loss'' (Scalar (SInt 1)) (d_var l0 ! i)"
  have i: "i < length (d_var l0)" using assms(2) by (rule py_index_Inr)
  have l1: "l1 = l0\<lparr>d_var := (d_var l0)[i := ?d1]\<rparr>"
    using assms(1,2,5) by (simp add: add_dynamic_value_top after_def)
  let ?p = "push_scope ''train'' l1"
  have p: "scopes ?p = [''train'']" "py_index (d_var ?p) (t ?p) = Inr i" "d_var ?p ! i = ?d1"
    using assms(1,2) i by (simp_all add: l1 push_scope_def py_index_update)
  have "\<forall>c. map_of (d_var ?p ! i) ''train'' \<noteq> Some (Scalar c)"
    using assms(3) by (simp add: p map_of_dict_set)
  from add_dynamic_value_one_scope [OF p(1) p(2) this, of "''loss''" "Scalar (SInt 2)"]
  obtain d sub where
    l2': "add_dynamic_value ''loss'' (Scalar (SInt 2)) ?p = (Inr (), ?p\<lparr>d_var := (d_var ?p)[i := d]\<rparr>)"
    and d: "map_of d = (map_of (d_var ?p ! i))(''train'' \<mapsto> Dict sub)"
    and sub: "map_of sub ''loss'' = Some (Scalar (SInt 2))"
    by blast
  have l2: "l2 = ?p\<lparr>d_var := (d_var ?p)[i := d]\<rparr>"
    using assms(6) l2' by (simp add: after_def)
  have s2: "scopes l2 = [''train'']" by (simp add: l2 p)
  have ix: "py_index (d_var l2) (t l2) = Inr i" "d_var l2 ! i = d"
    using p(2) i by (simp_all add: l2 py_index_update l1 push_scope_def)
  have m: "map_of d ''loss'' = Some (Scalar (SInt 1))" "map_of d ''train'' = Some (Dict sub)"
    "map_of d ''eval'' = None"
    using assms(4) by (simp_all add: d p map_of_dict_set)
  have a: "get_last_dynamic_value ''loss'' l2 = Inr (Scalar (SInt 2))"
    using ix m sub s2 by (intro last_value_shadow [where i = i and sub = sub]) simp_all
  let ?q = "push_scope ''eval'' (after (pop_scope l2))"
  have q: "scopes ?q = [''eval'']" "d_var ?q = d_var l2" "t ?q = t l2"
    by (simp_all add: push_scope_def pop_scope_def after_def s2)
  have b: "get_last_dynamic_value ''loss'' ?q = Inr (Scalar (SInt 1))"
    using ix m q by (intro last_value_missing_scope [where i = i]) simp_all
  from s2 a b show ?thesis by blast
qed

theorem shadow_law_witness:
  "get_last_dynamic_value ''loss''
     (after (add_dynamic_value ''loss'' (Scalar (SInt 2)) (push_scope ''train''
        (after (add_dynamic_value ''loss'' (Scalar (SInt 1)) (after (new_iteration init)))))))
     = Inr (Scalar (SInt 2))
   \<and> get_last_dynamic_value ''loss'' (push_scope ''eval'' (after (pop_scope
     (after (add_dynamic_value ''loss'' (Scalar (SInt 2)) (push_scope ''train''
        (after (add_dynamic_value ''loss'' (Scalar (SInt 1)) (after (new_iteration init))))))))))
     = Inr (Scalar (SInt 1))"
  using shadow_law [of "after (new_iteration init)" 0, OF _ _ _ _ refl refl]
  by (simp add: shadow_start py_index_def)

section \<open>Looking up a dotted name\<close>

text \<open>
  C4. \<^verbatim>\<open>get_scoped_value\<close> tests \<^verbatim>\<open>s not in tt\<close> on whatever the previous segment
  led to. In the log built by \<^verbatim>\<open>new_iteration(); add_dynamic_value("a", 1);
  new_iteration(); push_scope("a"); add_dynamic_value("b", 2)\<close> the name \<^verbatim>\<open>a.b\<close> is a
  column of iteration 1 and absent from iteration 0, where \<^verbatim>\<open>a\<close> holds the integer 1:
  the lookup of \<^verbatim>\<open>a.b\<close> in iteration 0 raises \<^verbatim>\<open>TypeError\<close>, and so does \<^verbatim>\<open>to_array\<close>.
\<close>

theorem get_scoped_value_scalar_prefix:
  "get_scoped_value 0 ''a.b''
     (after (add_dynamic_value ''b'' (Scalar (SInt 2)) (push_scope ''a''
       (after (new_iteration
         (after (add_dynamic_value ''a'' (Scalar (SInt 1)) (after (new_iteration init))))))))) =
     Inl TypeError
   \<and> to_array id
     (after (add_dynamic_value ''b'' (Scalar (SInt 2)) (push_scope ''a''
       (after (new_iteration
         (after (add_dynamic_value ''a'' (Scalar (SInt 1)) (after (new_iteration init))))))))) =
     Inl TypeError"
  by code_simp

lemma scoped_walk_subtree:
  "subtree_at d ss = Some sub \<Longrightarrow> scoped_walk (Dict d) ss = Inr (Dict sub)"
  by (induction ss arbitrary: d) (auto split: option.splits pyval.splits)

lemma log_d_value:
  "log_d = \<lparr>s_var = [],
     d_var = [[(''_iteration'', Scalar (SInt 0)),
               (''train'', Dict [(''deep'', Dict [(''loss'', Scalar (SInt 2))])])]],
     t = 0, scopes = [''train'', ''deep'']\<rparr>"
  by code_simp

text \<open>
  C10. Take an iteration index in range and a non-empty path of keys, none of which
  contains a \<^verbatim>\<open>.\<close>, that leads through nested dictionaries of the tree down to a
  dictionary. Then \<^verbatim>\<open>get_scoped_value\<close> on the keys joined by \<^verbatim>\<open>.\<close> returns that nested
  dictionary itself: neither \<^verbatim>\<open>None\<close> nor an error. Every name is such a join of
  segments, so this covers every dotted name.
\<close>

theorem get_scoped_value_subtree:
  assumes "0 \<le> ti" and "ti < int (length (d_var l))"
  shows "(ss \<noteq> [] \<and> (\<forall>s\<in>set ss. CHR ''.'' \<notin> set s)
            \<and> subtree_at (d_var l ! nat ti) ss = Some sub
          \<longrightarrow> get_scoped_value ti (join ''.'' ss) l = Inr (Dict sub))
     \<and> (\<exists>segs. segs \<noteq> [] \<and> (\<forall>s\<in>set segs. CHR ''.'' \<notin> set s) \<and> name = join ''.'' segs)"
proof
  show "ss \<noteq> [] \<and> (\<forall>s\<in>set ss. CHR ''.'' \<notin> set s)
            \<and> subtree_at (d_var l ! nat ti) ss = Some sub
          \<longrightarrow> get_scoped_value ti (join ''.'' ss) l = Inr (Dict sub)"
    using assms
    by (simp add: get_scoped_value_def py_index_nat split_join scoped_walk_subtree)
  have "split CHR ''.'' name \<noteq> []" by (rule split_not_Nil)
  moreover have "\<forall>s\<in>set (split CHR ''.'' name). CHR ''.'' \<notin> set s"
    using split_segments by blast
  moreover have "name = join ''.'' (split CHR ''.'' name)" by (simp add: join_split)
  ultimately show "\<exists>segs. segs \<noteq> [] \<and> (\<forall>s\<in>set segs. CHR ''.'' \<notin> set s) \<and> name = join ''.'' segs"
    by blast
qed

theorem get_scoped_value_subtree_witness:
  "get_scoped_value 0 ''train.deep'' log_d = Inr (Dict [(''loss'', Scalar (SInt 2))])
   \<and> get_scoped_value 0 ''train'' log_d = Inr (Dict [(''deep'', Dict [(''loss'', Scalar (SInt 2))])])"
proof -
  have r: "(0::int) \<le> 0" "0 < int (length (d_var log_d))"
    by (simp_all add: log_d_value)
  have a: "[''train'', ''deep''] \<noteq> [] \<and> (\<forall>s\<in>set [''train'', ''deep'']. CHR ''.'' \<notin> set s)
      \<and> subtree_at (d_var log_d ! nat 0) [''train'', ''deep''] = Some [(''loss'', Scalar (SInt 2))]"
    by (simp add: log_d_value)
  have b: "[''train''] \<noteq> [] \<and> (\<forall>s\<in>set [''train'']. CHR ''.'' \<notin> set s)
      \<and> subtree_at (d_var log_d ! nat 0) [''train''] = Some [(''deep'', Dict [(''loss'', Scalar (SInt 2))])]"
    by (simp add: log_d_value)
  from get_scoped_value_subtree [OF r, of "[''train'', ''deep'']" "[(''loss'', Scalar (SInt 2))]"] a
  have "get_scoped_value 0 (join ''.'' [''train'', ''deep'']) log_d = Inr (Dict [(''loss'', Scalar (SInt 2))])"
    by blast
  moreover
  from get_scoped_value_subtree [OF r, of "[''train'']" "[(''deep'', Dict [(''loss'', Scalar (SInt 2))])]"] b
  have "get_scoped_value 0 (join ''.'' [''train'']) log_d = Inr (Dict [(''deep'', Dict [(''loss'', Scalar (SInt 2))])])"
    by blast
  ultimately show ?thesis by simp
qed

section \<open>Pushing several scopes\<close>

text \<open>
  C5, as the code has it. \<^verbatim>\<open>push_scopes\<close> appends some names to the scope stack and
  returns how many, so that popping that many restores the stack. For \<^verbatim>\<open>None\<close> and for
  an empty sequence it changes nothing and returns 0. A string is split at every
  \<^verbatim>\<open>.\<close>: it pushes one name more than it has separators, hence at least one.
\<close>

theorem push_scopes_count:
  "(\<exists>ns. push_scopes names l = (length ns, l\<lparr>scopes := scopes l @ ns\<rparr>))
   \<and> pop_scopes (int (fst (push_scopes names l))) (snd (push_scopes names l)) = (Inr (), l)
   \<and> push_scopes NoNames l = (0, l)
   \<and> push_scopes (SeqNames []) l = (0, l)
   \<and> fst (push_scopes (StrNames s) l) = Suc (count_list s SCOPE_SEP)"
proof -
  have a: "\<exists>ns. push_scopes names l = (length ns, l\<lparr>scopes := scopes l @ ns\<rparr>)"
  proof (cases names)
    case NoNames
    have "push_scopes NoNames l = (length ([]::string list), l\<lparr>scopes := scopes l @ []\<rparr>)"
      by (simp add: push_scopes_def)
    with NoNames show ?thesis by blast
  next
    case (StrNames s)
    then have "push_scopes names l =
        (length (split SCOPE_SEP s), l\<lparr>scopes := scopes l @ split SCOPE_SEP s\<rparr>)"
      by (simp add: push_scopes_def fold_push_scope Let_def)
    then show ?thesis by blast
  next
    case (SeqNames ns)
    then have "push_scopes names l = (length ns, l\<lparr>scopes := scopes l @ ns\<rparr>)"
      by (simp add: push_scopes_def fold_push_scope)
    then show ?thesis by blast
  qed
  then obtain ns where ns: "push_scopes names l = (length ns, l\<lparr>scopes := scopes l @ ns\<rparr>)" ..
  have b: "pop_scopes (int (fst (push_scopes names l))) (snd (push_scopes names l)) = (Inr (), l)"
    by (simp add: ns pop_scopes_def pop_loop_pushed)
  have c: "push_scopes NoNames l = (0, l)" "push_scopes (SeqNames []) l = (0, l)"
    by (simp_all add: push_scopes_def)
  have d: "fst (push_scopes (StrNames s) l) = Suc (count_list s SCOPE_SEP)"
    by (simp add: push_scopes_def Let_def length_split)
  from a b c d show ?thesis by blast
qed

text \<open>
  C5 as stated fails at the empty string, which splits into one empty name: the call
  pushes the scope \<^verbatim>\<open>""\<close> and returns 1.
\<close>

theorem push_scopes_empty_string:
  "push_scopes (StrNames '''') init = (1, init\<lparr>scopes := ['''']\<rparr>)
   \<and> push_scopes (StrNames '''') init \<noteq> (0, init)"
  by (simp add: push_scopes_def init_def push_scope_def)

section \<open>The iteration counter\<close>

lemma push_scopes_frame:
  "d_var (snd (push_scopes names l)) = d_var l \<and> t (snd (push_scopes names l)) = t l"
  by (cases names) (simp_all add: push_scopes_def fold_push_scope Let_def)

lemma pop_scope_frame: "d_var (after (pop_scope l)) = d_var l \<and> t (after (pop_scope l)) = t l"
  by (simp add: pop_scope_def after_def)

lemma pop_loop_frame: "d_var (after (pop_loop n l)) = d_var l \<and> t (after (pop_loop n l)) = t l"
proof (induction n arbitrary: l)
  case 0
  then show ?case by (simp add: after_def)
next
  case (Suc n)
  show ?case
  proof (cases "scopes l = []")
    case True
    then show ?thesis by (simp add: pop_scope_def after_def)
  next
    case False
    then have "pop_loop (Suc n) l = pop_loop n (l\<lparr>scopes := butlast (scopes l)\<rparr>)"
      by (simp add: pop_scope_def)
    with Suc [of "l\<lparr>scopes := butlast (scopes l)\<rparr>"] show ?thesis by simp
  qed
qed

lemma add_static_values_frame:
  "d_var (add_static_values kwargs l) = d_var l \<and> t (add_static_values kwargs l) = t l"
  unfolding add_static_values_def
  by (induction kwargs arbitrary: l) (auto simp: add_static_value_def)

lemma add_dynamic_value_frame:
  "length (d_var (after (add_dynamic_value key v l))) = length (d_var l)
   \<and> t (after (add_dynamic_value key v l)) = t l"
  by (simp add: add_dynamic_value_def after_def split: sum.splits pyval.splits)

lemma add_loop_frame:
  "length (d_var (after (add_loop kwargs l))) = length (d_var l) \<and> t (after (add_loop kwargs l)) = t l"
proof (induction kwargs arbitrary: l)
  case Nil
  then show ?case by (simp add: after_def)
next
  case (Cons kv kwargs)
  obtain k v where kv: "kv = (k, v)" by (cases kv)
  obtain r l' where r: "add_dynamic_value k v l = (r, l')" by (cases "add_dynamic_value k v l")
  from add_dynamic_value_frame [of k v l] r
  have f: "length (d_var l') = length (d_var l)" "t l' = t l" by (simp_all add: after_def)
  show ?case
  proof (cases r)
    case (Inl e)
    with r f kv show ?thesis by (simp add: after_def)
  next
    case (Inr u)
    with r kv have "add_loop (kv # kwargs) l = add_loop kwargs l'" by simp
    with Cons [of l'] f show ?thesis by simp
  qed
qed

lemma add_dynamic_values_frame:
  "length (d_var (after (add_dynamic_values sc kwargs l))) = length (d_var l)
   \<and> t (after (add_dynamic_values sc kwargs l)) = t l"
proof -
  obtain n l1 where p: "push_scopes sc l = (n, l1)" by (cases "push_scopes sc l")
  with push_scopes_frame [of sc l] have f1: "d_var l1 = d_var l" "t l1 = t l" by simp_all
  obtain r l2 where a: "add_loop kwargs l1 = (r, l2)" by (cases "add_loop kwargs l1")
  with add_loop_frame [of kwargs l1] f1
  have f2: "length (d_var l2) = length (d_var l)" "t l2 = t l" by (simp_all add: after_def)
  show ?thesis
  proof (cases r)
    case (Inl e)
    with p a f2 show ?thesis by (simp add: add_dynamic_values_def after_def)
  next
    case (Inr u)
    with p a have "add_dynamic_values sc kwargs l = pop_loop n l2"
      by (simp add: add_dynamic_values_def pop_scopes_def)
    with pop_loop_frame [of n l2] f2 show ?thesis by simp
  qed
qed

lemma new_iteration_frame:
  "length (d_var (after (new_iteration l))) = Suc (length (d_var l))
   \<and> t (after (new_iteration l)) = t l + 1"
proof -
  let ?l2 = "l\<lparr>t := t l + 1, d_var := d_var l @ [[]]\<rparr>"
  obtain r l3 where a: "add_dynamic_value ITERATION_KEY (Scalar (SInt (t l + 1))) ?l2 = (r, l3)"
    by (cases "add_dynamic_value ITERATION_KEY (Scalar (SInt (t l + 1))) ?l2")
  with add_dynamic_value_frame [of ITERATION_KEY "Scalar (SInt (t l + 1))" ?l2]
  have f: "length (d_var l3) = Suc (length (d_var l))" "t l3 = t l + 1" by (simp_all add: after_def)
  from a f show ?thesis by (cases r) (simp_all add: new_iteration_def after_def Let_def)
qed

lemma apply_call_step:
  "t (apply_call c l) = (if c = NewIteration then t l + 1 else t l)
   \<and> length (d_var (apply_call c l)) = (if c = NewIteration then Suc (length (d_var l)) else length (d_var l))"
proof (cases c)
  case NewIteration
  then show ?thesis using new_iteration_frame [of l] by simp
next
  case (PushScope name)
  then show ?thesis by (simp add: push_scope_def)
next
  case (PushScopes names)
  then show ?thesis using push_scopes_frame [of names l] by simp
next
  case PopScope
  then show ?thesis using pop_scope_frame [of l] by simp
next
  case (PopScopes n)
  then show ?thesis using pop_loop_frame [of "nat n" l] by (simp add: pop_scopes_def)
next
  case (AddStaticValue key v)
  then show ?thesis by (simp add: add_static_value_def)
next
  case (AddStaticValues kwargs)
  then show ?thesis using add_static_values_frame [of kwargs l] by simp
next
  case (AddDynamicValue key v)
  then show ?thesis using add_dynamic_value_frame [of key v l] by simp
next
  case (AddDynamicValues sc kwargs)
  then show ?thesis using add_dynamic_values_frame [of sc kwargs l] by simp
qed

lemma consistent_step: "consistent l \<Longrightarrow> consistent (apply_call c l)"
  using apply_call_step [of c l] by (simp add: consistent_def)

lemma consistent_run: "consistent l \<Longrightarrow> consistent (fold apply_call cs l)"
  by (induction cs arbitrary: l) (simp_all add: consistent_step)

text \<open>
  C8. Every log reached from the empty log by recording calls has as many iterations as
  its current index plus one. Each recording call (\<^verbatim>\<open>new_iteration\<close>, the scope pushes
  and pops, the static and dynamic additions), returning or raising, keeps this, and
  leaves the current index as it is, except \<^verbatim>\<open>new_iteration\<close>, which adds exactly one.
\<close>

theorem index_invariant:
  "consistent (fold apply_call cs init)
   \<and> (consistent l \<longrightarrow>
        consistent (apply_call c l)
        \<and> t (apply_call c l) = (if c = NewIteration then t l + 1 else t l))"
proof -
  have "consistent init" by (simp add: consistent_def init_def)
  then have "consistent (fold apply_call cs init)" by (rule consistent_run)
  then show ?thesis using apply_call_step [of c l] consistent_step [of l c] by simp
qed

theorem index_invariant_witness:
  "consistent (after (new_iteration init))
   \<and> consistent (apply_call NewIteration (after (new_iteration init)))
   \<and> t (apply_call NewIteration (after (new_iteration init))) = 1
   \<and> consistent (apply_call (AddDynamicValue ''loss'' (Scalar (SInt 1))) (after (new_iteration init)))
   \<and> t (apply_call (AddDynamicValue ''loss'' (Scalar (SInt 1))) (after (new_iteration init))) = 0"
proof -
  have h: "consistent (after (new_iteration init))" "t (after (new_iteration init)) = 0"
    by (simp_all add: shadow_start consistent_def)
  from h index_invariant [of "[]" "after (new_iteration init)" NewIteration]
    index_invariant [of "[]" "after (new_iteration init)" "AddDynamicValue ''loss'' (Scalar (SInt 1))"]
  show ?thesis by simp
qed

section \<open>Column names and tables\<close>

lemma py_index_int: "py_index xs (int i) = (if i < length xs then Inr i else Inl IndexError)"
  by (simp add: py_index_def)

lemma collect_Cons:
  "collect f (x # xs) = Inr ys \<longleftrightarrow> (\<exists>z zs. ys = z # zs \<and> f x = Inr z \<and> collect f xs = Inr zs)"
  by (auto split: sum.splits)

lemma collect_list_all2: "collect f xs = Inr ys \<longleftrightarrow> list_all2 (\<lambda>x y. f x = Inr y) xs ys"
proof (induction xs arbitrary: ys)
  case Nil
  then show ?case by auto
next
  case (Cons x xs)
  show ?case unfolding collect_Cons by (cases ys) (simp_all add: Cons)
qed

lemma collect_nth:
  "collect f xs = Inr ys \<longleftrightarrow> length ys = length xs \<and> (\<forall>i<length xs. f (xs ! i) = Inr (ys ! i))"
  by (auto simp: collect_list_all2 list_all2_conv_all_nth)

lemma set_set_add: "set (set_add x xs) = insert x (set xs)"
  by (auto simp: set_add_def)

lemma distinct_set_add: "distinct xs \<Longrightarrow> distinct (set_add x xs)"
  by (simp add: set_add_def)

lemma set_set_update: "set (set_update xs ys) = set xs \<union> set ys"
  unfolding set_update_def by (induction ys arbitrary: xs) (auto simp: set_set_add)

lemma distinct_set_update: "distinct xs \<Longrightarrow> distinct (set_update xs ys)"
  unfolding set_update_def by (induction ys arbitrary: xs) (auto simp: distinct_set_add)

lemma distinct_columns_loop: "distinct columns \<Longrightarrow> distinct (columns_loop d scope columns)"
  by (induction d scope columns rule: columns_loop.induct)
    (simp_all add: distinct_set_add distinct_set_update)

lemma columns_loop_mono: "set columns \<subseteq> set (columns_loop d scope columns)"
  by (induction d scope columns rule: columns_loop.induct)
    (auto simp: set_set_add set_set_update)

lemma columns_loop_leaf:
  "(k, Scalar c) \<in> set d \<Longrightarrow> join ''.'' (scope @ [k]) \<in> set (columns_loop d scope columns)"
proof (induction d scope columns rule: columns_loop.induct)
  case (1 scope columns)
  then show ?case by simp
next
  case (2 k' sub rest scope columns)
  then show ?case by auto
next
  case (3 k' c' rest scope columns)
  show ?case
  proof (cases "(k, Scalar c) \<in> set rest")
    case True
    with 3 show ?thesis by simp
  next
    case False
    with 3 have "k = k'" by simp
    then have "join ''.'' (scope @ [k]) \<in> set (set_add (join ''.'' (scope @ [k'])) columns)"
      by (simp add: set_set_add)
    then show ?thesis using columns_loop_mono by fastforce
  qed
qed

lemma top_leaf_column:
  "map_of d k = Some (Scalar c) \<Longrightarrow> k \<in> set (generate_columns_names_from_dict d [])"
  using columns_loop_leaf [of k c d "[]" "[]"]
  by (simp add: generate_columns_names_from_dict_def map_of_SomeD)

lemma distinct_names_loop:
  "names_loop is l columns = Inr out \<Longrightarrow> distinct columns \<Longrightarrow> distinct out"
proof (induction "is" arbitrary: columns)
  case Nil
  then show ?case by simp
next
  case (Cons i "is")
  then show ?case
    by (auto simp: py_index_int distinct_set_update split: if_splits)
qed

lemma names_loop_mono:
  "names_loop is l columns = Inr out \<Longrightarrow> set columns \<subseteq> set out"
proof (induction "is" arbitrary: columns)
  case Nil
  then show ?case by simp
next
  case (Cons i "is")
  then show ?case
    by (fastforce simp: py_index_int set_set_update split: if_splits)
qed

lemma names_loop_member:
  "names_loop is l columns = Inr out \<Longrightarrow> i \<in> set is \<Longrightarrow>
     i < length (d_var l) \<and> set (generate_columns_names_from_dict (d_var l ! i) []) \<subseteq> set out"
proof (induction "is" arbitrary: columns)
  case Nil
  then show ?case by simp
next
  case (Cons j "is")
  from Cons.prems(1) have j: "j < length (d_var l)"
    and rest: "names_loop is l (set_update columns (generate_columns_names_from_dict (d_var l ! j) [])) = Inr out"
    by (auto simp: py_index_int split: if_splits)
  show ?case
  proof (cases "i = j")
    case True
    with names_loop_mono [OF rest] j show ?thesis by (simp add: set_set_update)
  next
    case False
    with Cons.prems(2) have "i \<in> set is" by simp
    from Cons.IH [OF rest this] show ?thesis .
  qed
qed

lemma generate_columns_names_distinct:
  assumes "set_order ord" and "generate_columns_names ord l = Inr names"
  shows "distinct names"
proof -
  from assms(2) obtain columns where c: "names_loop [0..<nat (t l + 1)] l [] = Inr columns"
    and n: "names = ord columns"
    by (auto simp: generate_columns_names_def split: sum.splits)
  from distinct_names_loop [OF c] have "distinct columns" by simp
  with assms(1) n show ?thesis by (simp add: set_order_def)
qed

lemma generate_columns_names_leaf:
  assumes "set_order ord" and "generate_columns_names ord l = Inr names"
    and "0 \<le> i" and "i \<le> t l" and "map_of (d_var l ! nat i) k = Some (Scalar c)"
  shows "k \<in> set names"
proof -
  from assms(2) obtain columns where c: "names_loop [0..<nat (t l + 1)] l [] = Inr columns"
    and n: "names = ord columns"
    by (auto simp: generate_columns_names_def split: sum.splits)
  from distinct_names_loop [OF c] have d: "distinct columns" by simp
  from assms(3,4) have "nat i \<in> set [0..<nat (t l + 1)]" by auto
  from names_loop_member [OF c this] top_leaf_column [OF assms(5)]
  have "k \<in> set columns" by blast
  with assms(1) d n show ?thesis by (simp add: set_order_def)
qed

lemma to_extended_array_Inr:
  assumes "to_extended_array ord l = Inr table"
  obtains cols rows where "generate_columns_names ord l = Inr cols"
    and "table = map name_cell ((''_iteration'' # cols) @ map (\<lambda>k. ''_s_'' @ k) (dict_keys (s_var l))) # rows"
    and "collect (\<lambda>i. collect (extended_cell l i)
            ((''_iteration'' # cols) @ map (\<lambda>k. ''_s_'' @ k) (dict_keys (s_var l))))
          [0..<length (d_var l)] = Inr rows"
  using assms
  by (auto simp: to_extended_array_def extended_names_def split: sum.splits)

lemma count_list_map_inj: "inj f \<Longrightarrow> count_list (map f xs) (f x) = count_list xs x"
  by (induction xs) (auto dest: injD)

lemma inj_name_cell: "inj name_cell"
  by (simp add: inj_def name_cell_def)

lemma count_list_distinct: "distinct xs \<Longrightarrow> x \<in> set xs \<Longrightarrow> count_list xs x = 1"
  by (induction xs) (auto simp: count_list_0_iff)

text \<open>
  C9. Whatever order the set of column names is listed in: when \<^verbatim>\<open>to_extended_array\<close>
  returns and the tree of some iteration from 0 to the current index holds
  \<^verbatim>\<open>_iteration\<close> as a top-level scalar, the header row contains the name
  \<^verbatim>\<open>_iteration\<close> exactly twice, once prepended and once among the generated names.
\<close>

theorem extended_header_iteration_twice:
  assumes "set_order ord" and "to_extended_array ord l = Inr table"
    and "0 \<le> i" and "i \<le> t l"
    and "map_of (d_var l ! nat i) ''_iteration'' = Some (Scalar c)"
  shows "count_list (table ! 0) (name_cell ''_iteration'') = 2"
proof -
  from assms(2) obtain cols rows where g: "generate_columns_names ord l = Inr cols"
    and tb: "table = map name_cell
        ((''_iteration'' # cols) @ map (\<lambda>k. ''_s_'' @ k) (dict_keys (s_var l))) # rows"
    by (rule to_extended_array_Inr)
  have "distinct cols" using assms(1) g by (rule generate_columns_names_distinct)
  moreover have "''_iteration'' \<in> set cols"
    using assms(1) g assms(3,4,5) by (rule generate_columns_names_leaf)
  ultimately have dyn: "count_list cols ''_iteration'' = 1" by (rule count_list_distinct)
  have stat: "count_list (map (\<lambda>k. ''_s_'' @ k) (dict_keys (s_var l))) ''_iteration'' = 0"
    by (auto simp: count_list_0_iff)
  have "count_list (table ! 0) (name_cell ''_iteration'') =
      count_list ((''_iteration'' # cols) @ map (\<lambda>k. ''_s_'' @ k) (dict_keys (s_var l))) ''_iteration''"
    unfolding tb nth_Cons_0 by (rule count_list_map_inj [OF inj_name_cell])
  also have "\<dots> = 2" using dyn stat by simp
  finally show ?thesis .
qed

lemma extended_log_a:
  "to_extended_array id log_a =
     Inr [[name_cell ''_iteration'', name_cell ''_iteration'', name_cell ''x''],
          [Scalar (SInt 0), Scalar (SInt 0), Scalar (SInt 5)],
          [Scalar (SInt 1), Scalar (SInt 1), Scalar (SInt 7)]]"
  by code_simp

lemma log_a_value:
  "log_a = \<lparr>s_var = [],
     d_var = [[(''_iteration'', Scalar (SInt 0)), (''x'', Scalar (SInt 5))],
              [(''_iteration'', Scalar (SInt 1)), (''x'', Scalar (SInt 7))]],
     t = 1, scopes = []\<rparr>"
  by code_simp

theorem extended_header_iteration_twice_witness:
  "to_extended_array id log_a =
     Inr [[name_cell ''_iteration'', name_cell ''_iteration'', name_cell ''x''],
          [Scalar (SInt 0), Scalar (SInt 0), Scalar (SInt 5)],
          [Scalar (SInt 1), Scalar (SInt 1), Scalar (SInt 7)]]
   \<and> (\<exists>table. to_extended_array id log_a = Inr table
        \<and> count_list (table ! 0) (name_cell ''_iteration'') = 2)"
proof -
  have o: "set_order id" by (simp add: set_order_def)
  have m: "map_of (d_var log_a ! nat 1) ''_iteration'' = Some (Scalar (SInt 1))"
    "(0::int) \<le> 1" "1 \<le> t log_a"
    by (simp_all add: log_a_value)
  from extended_header_iteration_twice [OF o extended_log_a m(2) m(3) m(1)] extended_log_a
  show ?thesis by blast
qed

section \<open>The extended table\<close>

lemma collect_upt:
  "collect f [0..<n] = Inr ys \<longleftrightarrow> length ys = n \<and> (\<forall>i<n. f i = Inr (ys ! i))"
  by (auto simp: collect_nth)

lemma collect_total: "(\<And>x. x \<in> set xs \<Longrightarrow> \<exists>y. f x = Inr y) \<Longrightarrow> \<exists>ys. collect f xs = Inr ys"
proof (induction xs)
  case Nil
  then show ?case by simp
next
  case (Cons x xs)
  from Cons.prems [of x] obtain y where "f x = Inr y" by auto
  moreover from Cons.IH Cons.prems obtain ys where "collect f xs = Inr ys" by auto
  ultimately show ?case by simp
qed

lemma to_extended_array_shape:
  assumes "to_extended_array ord l = Inr table"
  shows "length table = Suc (length (d_var l))"
    and "table ! 0 \<noteq> []" and "table ! 0 ! 0 = name_cell ''_iteration''"
    and "i < length (d_var l) \<Longrightarrow> length (table ! Suc i) = length (table ! 0)"
proof -
  let ?names = "\<lambda>cols. (''_iteration'' # cols) @ map (\<lambda>k. ''_s_'' @ k) (dict_keys (s_var l))"
  from assms obtain cols rows where
    tb: "table = map name_cell (?names cols) # rows"
    and c: "collect (\<lambda>i. collect (extended_cell l i) (?names cols)) [0..<length (d_var l)] = Inr rows"
    by (rule to_extended_array_Inr)
  from c have len: "length rows = length (d_var l)"
    and row: "\<And>i. i < length (d_var l) \<Longrightarrow> collect (extended_cell l i) (?names cols) = Inr (rows ! i)"
    by (simp_all add: collect_upt)
  show "length table = Suc (length (d_var l))" by (simp add: tb len)
  show "table ! 0 \<noteq> []" "table ! 0 ! 0 = name_cell ''_iteration''" by (simp_all add: tb)
  show "length (table ! Suc i) = length (table ! 0)" if "i < length (d_var l)"
  proof -
    from row [OF that] have "length (rows ! i) = length (?names cols)"
      by (simp only: collect_nth)
    then show ?thesis by (simp add: tb)
  qed
qed

text \<open>
  C6. \<^verbatim>\<open>to_extended_array\<close> takes every name that begins with \<^verbatim>\<open>_s_\<close> for a static
  column, also a name that \<^verbatim>\<open>_generate_columns_names\<close> produced from a tree. The tree of
  \<^verbatim>\<open>log_c\<close> holds 1 under the dynamic name \<^verbatim>\<open>_s_x\<close> and the static value of \<^verbatim>\<open>x\<close> is 7:
  \<^verbatim>\<open>get_scoped_value\<close> and \<^verbatim>\<open>to_array\<close> give 1 for the column \<^verbatim>\<open>_s_x\<close>, while
  \<^verbatim>\<open>to_extended_array\<close>, in either order of the two generated names, has two columns
  named \<^verbatim>\<open>_s_x\<close> that both hold 7. On the same log without the static key the call
  raises \<^verbatim>\<open>KeyError\<close>.
\<close>

theorem dynamic_name_with_static_prefix:
  "get_scoped_value 0 ''_s_x'' log_c = Inr (Scalar (SInt 1))
   \<and> to_array id log_c
     = Inr [[name_cell ''_iteration'', name_cell ''_s_x''], [Scalar (SInt 0), Scalar (SInt 1)]]
   \<and> to_array rev log_c
     = Inr [[name_cell ''_s_x'', name_cell ''_iteration''], [Scalar (SInt 1), Scalar (SInt 0)]]
   \<and> to_extended_array id log_c
     = Inr [[name_cell ''_iteration'', name_cell ''_iteration'', name_cell ''_s_x'', name_cell ''_s_x''],
            [Scalar (SInt 0), Scalar (SInt 0), Scalar (SInt 7), Scalar (SInt 7)]]
   \<and> to_extended_array rev log_c
     = Inr [[name_cell ''_iteration'', name_cell ''_s_x'', name_cell ''_iteration'', name_cell ''_s_x''],
            [Scalar (SInt 0), Scalar (SInt 7), Scalar (SInt 0), Scalar (SInt 7)]]
   \<and> to_extended_array id
       (after (add_dynamic_value ''_s_x'' (Scalar (SInt 1)) (after (new_iteration init))))
     = Inl KeyError
   \<and> to_extended_array rev
       (after (add_dynamic_value ''_s_x'' (Scalar (SInt 1)) (after (new_iteration init))))
     = Inl KeyError"
  by code_simp

section \<open>Merging two logs\<close>

lemma dict_keys_dict_set: "set (dict_keys (dict_set k v d)) = insert k (set (dict_keys d))"
  by (induction d) (auto simp: dict_keys_def)

lemma header_loop_all_columns:
  "set (dict_keys (snd (header_loop cs j index ac))) = set (dict_keys ac) \<union> set cs"
  by (induction cs arbitrary: j index ac) (simp_all add: dict_keys_dict_set)

lemma header_loop_index_notin:
  "c \<notin> set cs \<Longrightarrow> map_of (fst (header_loop cs j index ac)) c = map_of index c"
  by (induction cs arbitrary: j index ac) (simp_all add: map_of_dict_set)

lemma header_loop_index_in:
  "c \<in> set cs \<Longrightarrow>
     \<exists>k. map_of (fst (header_loop cs j index ac)) c = Some k \<and> j \<le> k \<and> k < j + length cs
         \<and> cs ! (k - j) = c"
proof (induction cs arbitrary: j index ac)
  case Nil
  then show ?case by simp
next
  case (Cons c' cs)
  show ?case
  proof (cases "c \<in> set cs")
    case True
    from Cons.IH [OF True, of "Suc j" "dict_set c' j index" "dict_set c' 1 ac"]
    obtain k where k: "map_of (fst (header_loop cs (Suc j) (dict_set c' j index) (dict_set c' 1 ac))) c = Some k"
      "Suc j \<le> k" "k < Suc j + length cs" "cs ! (k - Suc j) = c"
      by blast
    from k(2) have "k - j = Suc (k - Suc j)" by simp
    with k show ?thesis by (intro exI [of _ k]) simp
  next
    case False
    with Cons.prems have "c = c'" by simp
    with False show ?thesis
      by (intro exI [of _ j]) (simp add: header_loop_index_notin map_of_dict_set)
  qed
qed

lemma merged_rows_table:
  assumes tb: "to_extended_array ord l = Inr table"
    and ix: "index = fst (header_loop (table ! 0) 0 [] ac)"
  shows "\<exists>rows. merged_rows i f index table names = Inr rows
     \<and> length rows = length (d_var l)
     \<and> (\<forall>r<length (d_var l). length (rows ! r) = length names
          \<and> (\<forall>j<length names.
               (names ! j = name_cell ''_log_file'' \<longrightarrow> rows ! r ! j = Scalar (SStr f))
             \<and> (names ! j = name_cell ''_log_idx'' \<longrightarrow> rows ! r ! j = Scalar (SInt (int i)))
             \<and> (names ! j \<notin> set (table ! 0) \<union> {name_cell ''_log_file'', name_cell ''_log_idx''} \<longrightarrow>
                  rows ! r ! j = PyNone)
             \<and> (names ! j \<in> set (table ! 0) - {name_cell ''_log_file'', name_cell ''_log_idx''} \<longrightarrow>
                  (\<exists>k<length (table ! 0). table ! 0 ! k = names ! j \<and> rows ! r ! j = table ! Suc r ! k))))"
proof -
  note shape = to_extended_array_shape [OF tb]
  have n: "length table - 1 = length (d_var l)" by (simp add: shape(1))
  have some: "k < length (table ! 0) \<and> table ! 0 ! k = c" if "map_of index c = Some k" for c k
  proof (cases "c \<in> set (table ! 0)")
    case True
    from header_loop_index_in [OF True, of 0 "[]" ac] that show ?thesis by (auto simp: ix)
  next
    case False
    from header_loop_index_notin [OF False, of 0 "[]" ac] that show ?thesis by (simp add: ix)
  qed
  have none: "map_of index c = None" if "c \<notin> set (table ! 0)" for c
    using header_loop_index_notin [OF that, of 0 "[]" ac] by (simp add: ix)
  have mem: "\<exists>k. map_of index c = Some k" if "c \<in> set (table ! 0)" for c
    using header_loop_index_in [OF that, of 0 "[]" ac] by (auto simp: ix)
  have cell: "\<exists>v. merged_cell i f index (table ! Suc r) c = Inr v
      \<and> (c = name_cell ''_log_file'' \<longrightarrow> v = Scalar (SStr f))
      \<and> (c = name_cell ''_log_idx'' \<longrightarrow> v = Scalar (SInt (int i)))
      \<and> (c \<notin> set (table ! 0) \<union> {name_cell ''_log_file'', name_cell ''_log_idx''} \<longrightarrow> v = PyNone)
      \<and> (c \<in> set (table ! 0) - {name_cell ''_log_file'', name_cell ''_log_idx''} \<longrightarrow>
            (\<exists>k<length (table ! 0). table ! 0 ! k = c \<and> v = table ! Suc r ! k))"
    if r: "r < length (d_var l)" for r c
  proof -
    consider "c = name_cell ''_log_file''"
      | "c \<noteq> name_cell ''_log_file''" "c = name_cell ''_log_idx''"
      | "c \<noteq> name_cell ''_log_file''" "c \<noteq> name_cell ''_log_idx''" "c \<notin> set (table ! 0)"
      | "c \<noteq> name_cell ''_log_file''" "c \<noteq> name_cell ''_log_idx''" "c \<in> set (table ! 0)"
      by blast
    then show ?thesis
    proof cases
      case 1
      then show ?thesis by (simp add: merged_cell_def name_cell_def)
    next
      case 2
      then show ?thesis by (simp add: merged_cell_def name_cell_def)
    next
      case 3
      with none [OF 3(3)] show ?thesis by (simp add: merged_cell_def)
    next
      case 4
      from mem [OF 4(3)] obtain k where k: "map_of index c = Some k" ..
      from some [OF k] shape(4) [OF r] have "k < length (table ! Suc r)" by simp
      with 4 k some [OF k] show ?thesis by (auto simp: merged_cell_def)
    qed
  qed
  have inner: "\<exists>row. collect (merged_cell i f index (table ! Suc r)) names = Inr row"
    if "r < length (d_var l)" for r
  proof (rule collect_total)
    fix c
    from cell [OF that, of c] show "\<exists>v. merged_cell i f index (table ! Suc r) c = Inr v" by blast
  qed
  have "\<exists>rows. merged_rows i f index table names = Inr rows"
    unfolding merged_rows_def n
  proof (rule collect_total)
    fix r
    assume "r \<in> set [0..<length (d_var l)]"
    then have "r < length (d_var l)" by simp
    from inner [OF this]
    show "\<exists>row. collect (merged_cell i f index (table ! Suc r)) names = Inr row" .
  qed
  then obtain rows where rows: "merged_rows i f index table names = Inr rows" ..
  then have len: "length rows = length (d_var l)"
    and row: "\<And>r. r < length (d_var l) \<Longrightarrow>
        collect (merged_cell i f index (table ! Suc r)) names = Inr (rows ! r)"
    unfolding merged_rows_def n by (simp_all add: collect_upt)
  have "length (rows ! r) = length names
      \<and> (\<forall>j<length names.
           (names ! j = name_cell ''_log_file'' \<longrightarrow> rows ! r ! j = Scalar (SStr f))
         \<and> (names ! j = name_cell ''_log_idx'' \<longrightarrow> rows ! r ! j = Scalar (SInt (int i)))
         \<and> (names ! j \<notin> set (table ! 0) \<union> {name_cell ''_log_file'', name_cell ''_log_idx''} \<longrightarrow>
              rows ! r ! j = PyNone)
         \<and> (names ! j \<in> set (table ! 0) - {name_cell ''_log_file'', name_cell ''_log_idx''} \<longrightarrow>
              (\<exists>k<length (table ! 0). table ! 0 ! k = names ! j \<and> rows ! r ! j = table ! Suc r ! k)))"
    if r: "r < length (d_var l)" for r
  proof -
    from row [OF r] have a: "length (rows ! r) = length names"
      and b: "\<And>j. j < length names \<Longrightarrow> merged_cell i f index (table ! Suc r) (names ! j) = Inr (rows ! r ! j)"
      by (simp_all only: collect_nth)
    show ?thesis using a b cell [OF r] by (metis sum.inject(2))
  qed
  with rows len show ?thesis by blast
qed

lemma indexes_loop_two:
  "indexes_loop [ha # ra, hb # rb] [] =
     Inr ([fst (header_loop ha 0 [] []), fst (header_loop hb 0 [] (snd (header_loop ha 0 [] [])))],
          snd (header_loop hb 0 [] (snd (header_loop ha 0 [] []))))"
  by (simp add: case_prod_unfold)

lemma extended_log_b:
  "to_extended_array id log_b =
     Inr [[name_cell ''_iteration'', name_cell ''_iteration'', name_cell ''y''],
          [Scalar (SInt 0), Scalar (SInt 0), Scalar (SInt 9)]]"
  by code_simp

lemma merged_example:
  "logs_to_dataframe id [(''a.log'', log_a), (''b.log'', log_b)] =
     Inr ([name_cell ''_log_idx'', name_cell ''_log_file'', name_cell ''_iteration'',
           name_cell ''x'', name_cell ''y''],
          [[Scalar (SInt 0), Scalar (SStr ''a.log''), Scalar (SInt 0), Scalar (SInt 5), PyNone],
           [Scalar (SInt 0), Scalar (SStr ''a.log''), Scalar (SInt 1), Scalar (SInt 7), PyNone],
           [Scalar (SInt 1), Scalar (SStr ''b.log''), Scalar (SInt 0), PyNone, Scalar (SInt 9)]])"
  by code_simp

text \<open>
  C7. Let the extended tables of the logs A and B be built, the header of A holding
  the column \<^verbatim>\<open>x\<close> and not \<^verbatim>\<open>y\<close>, the header of B holding \<^verbatim>\<open>y\<close> and not \<^verbatim>\<open>x\<close>. Then
  merging \<^verbatim>\<open>[A, B]\<close> returns. The combined header holds \<^verbatim>\<open>_log_idx\<close>, \<^verbatim>\<open>_log_file\<close>,
  \<^verbatim>\<open>_iteration\<close>, \<^verbatim>\<open>x\<close> and \<^verbatim>\<open>y\<close>, and nothing but the two added names and the names of
  the two headers. There is one row per iteration of A, then one per iteration of B,
  none for a header. The r-th row of A has 0 under \<^verbatim>\<open>_log_idx\<close>, the name of A's file
  under \<^verbatim>\<open>_log_file\<close>, \<^verbatim>\<open>None\<close> under \<^verbatim>\<open>y\<close>, and under a column of A's header the cell
  of A's r-th data row in a column of that name; likewise the rows of B, with 1 under
  \<^verbatim>\<open>_log_idx\<close> and \<^verbatim>\<open>None\<close> under \<^verbatim>\<open>x\<close>.
\<close>

theorem merge_union:
  assumes a: "to_extended_array ord A = Inr ta" and b: "to_extended_array ord B = Inr tb"
    and xa: "name_cell ''x'' \<in> set (ta ! 0)" and ya: "name_cell ''y'' \<notin> set (ta ! 0)"
    and yb: "name_cell ''y'' \<in> set (tb ! 0)" and xb: "name_cell ''x'' \<notin> set (tb ! 0)"
  shows "\<exists>names rows. logs_to_dataframe ord [(fa, A), (fb, B)] = Inr (names, rows)
     \<and> {name_cell ''_log_idx'', name_cell ''_log_file'', name_cell ''_iteration'',
         name_cell ''x'', name_cell ''y''} \<subseteq> set names
     \<and> set names = {name_cell ''_log_idx'', name_cell ''_log_file''} \<union> set (ta ! 0) \<union> set (tb ! 0)
     \<and> length rows = length (d_var A) + length (d_var B)
     \<and> (\<forall>r<length (d_var A). length (rows ! r) = length names
          \<and> (\<forall>j<length names.
               (names ! j = name_cell ''_log_idx'' \<longrightarrow> rows ! r ! j = Scalar (SInt 0))
             \<and> (names ! j = name_cell ''_log_file'' \<longrightarrow> rows ! r ! j = Scalar (SStr fa))
             \<and> (names ! j = name_cell ''y'' \<longrightarrow> rows ! r ! j = PyNone)
             \<and> (names ! j \<in> set (ta ! 0) - {name_cell ''_log_file'', name_cell ''_log_idx''} \<longrightarrow>
                  (\<exists>k<length (ta ! 0). ta ! 0 ! k = names ! j \<and> rows ! r ! j = ta ! Suc r ! k))))
     \<and> (\<forall>r<length (d_var B). length (rows ! (length (d_var A) + r)) = length names
          \<and> (\<forall>j<length names.
               (names ! j = name_cell ''_log_idx'' \<longrightarrow> rows ! (length (d_var A) + r) ! j = Scalar (SInt 1))
             \<and> (names ! j = name_cell ''_log_file'' \<longrightarrow> rows ! (length (d_var A) + r) ! j = Scalar (SStr fb))
             \<and> (names ! j = name_cell ''x'' \<longrightarrow> rows ! (length (d_var A) + r) ! j = PyNone)
             \<and> (names ! j \<in> set (tb ! 0) - {name_cell ''_log_file'', name_cell ''_log_idx''} \<longrightarrow>
                  (\<exists>k<length (tb ! 0). tb ! 0 ! k = names ! j
                     \<and> rows ! (length (d_var A) + r) ! j = tb ! Suc r ! k))))"
proof -
  note sa = to_extended_array_shape [OF a] and sb = to_extended_array_shape [OF b]
  from sa(1) obtain ha ra where ta: "ta = ha # ra" by (cases ta) auto
  from sb(1) obtain hb rb where tb: "tb = hb # rb" by (cases tb) auto
  define ia where "ia = fst (header_loop (ta ! 0) 0 [] [])"
  define ac1 where "ac1 = snd (header_loop (ta ! 0) 0 [] [])"
  define ib where "ib = fst (header_loop (tb ! 0) 0 [] ac1)"
  define ac where "ac = snd (header_loop (tb ! 0) 0 [] ac1)"
  define names where "names = [name_cell ''_log_idx'', name_cell ''_log_file''] @ dict_keys ac"
  have il: "indexes_loop [ta, tb] [] = Inr ([ia, ib], ac)"
    unfolding ta tb ia_def ib_def ac_def ac1_def by (simp only: indexes_loop_two nth_Cons_0)
  have keys: "set (dict_keys ac) = set (ta ! 0) \<union> set (tb ! 0)"
    unfolding ac_def ac1_def header_loop_all_columns by (simp add: dict_keys_def)
  from sa(2,3) have "name_cell ''_iteration'' \<in> set (ta ! 0)"
    by (metis length_greater_0_conv nth_mem)
  with xa yb keys have sub: "{name_cell ''_log_idx'', name_cell ''_log_file'', name_cell ''_iteration'',
         name_cell ''x'', name_cell ''y''} \<subseteq> set names"
    by (simp add: names_def)
  have all: "set names = {name_cell ''_log_idx'', name_cell ''_log_file''} \<union> set (ta ! 0) \<union> set (tb ! 0)"
    using keys by (auto simp: names_def)
  from merged_rows_table [OF a ia_def, of 0 fa names] obtain rsa where
    ma: "merged_rows 0 fa ia ta names = Inr rsa" and la: "length rsa = length (d_var A)"
    and pa: "\<forall>r<length (d_var A). length (rsa ! r) = length names
          \<and> (\<forall>j<length names.
               (names ! j = name_cell ''_log_file'' \<longrightarrow> rsa ! r ! j = Scalar (SStr fa))
             \<and> (names ! j = name_cell ''_log_idx'' \<longrightarrow> rsa ! r ! j = Scalar (SInt (int 0)))
             \<and> (names ! j \<notin> set (ta ! 0) \<union> {name_cell ''_log_file'', name_cell ''_log_idx''} \<longrightarrow>
                  rsa ! r ! j = PyNone)
             \<and> (names ! j \<in> set (ta ! 0) - {name_cell ''_log_file'', name_cell ''_log_idx''} \<longrightarrow>
                  (\<exists>k<length (ta ! 0). ta ! 0 ! k = names ! j \<and> rsa ! r ! j = ta ! Suc r ! k)))"
    by blast
  from merged_rows_table [OF b ib_def, of "Suc 0" fb names] obtain rsb where
    mb: "merged_rows (Suc 0) fb ib tb names = Inr rsb" and lb: "length rsb = length (d_var B)"
    and pb: "\<forall>r<length (d_var B). length (rsb ! r) = length names
          \<and> (\<forall>j<length names.
               (names ! j = name_cell ''_log_file'' \<longrightarrow> rsb ! r ! j = Scalar (SStr fb))
             \<and> (names ! j = name_cell ''_log_idx'' \<longrightarrow> rsb ! r ! j = Scalar (SInt (int (Suc 0))))
             \<and> (names ! j \<notin> set (tb ! 0) \<union> {name_cell ''_log_file'', name_cell ''_log_idx''} \<longrightarrow>
                  rsb ! r ! j = PyNone)
             \<and> (names ! j \<in> set (tb ! 0) - {name_cell ''_log_file'', name_cell ''_log_idx''} \<longrightarrow>
                  (\<exists>k<length (tb ! 0). tb ! 0 ! k = names ! j \<and> rsb ! r ! j = tb ! Suc r ! k)))"
    by blast
  have rl: "rows_loop 0 [ta, tb] [fa, fb] [ia, ib] names = Inr (rsa @ rsb)"
    by (simp add: ma mb)
  have res: "logs_to_dataframe ord [(fa, A), (fb, B)] = Inr (names, rsa @ rsb)"
  proof -
    have nm: "name_cell ''_log_idx'' # name_cell ''_log_file'' # dict_keys ac = names"
      by (simp add: names_def)
    show ?thesis unfolding logs_to_dataframe_def
      by (simp add: a b il rl Let_def nm del: indexes_loop.simps rows_loop.simps)
  qed
  have ny: "name_cell ''y'' \<notin> set (ta ! 0) \<union> {name_cell ''_log_file'', name_cell ''_log_idx''}"
    using ya by (simp add: name_cell_def)
  have nx: "name_cell ''x'' \<notin> set (tb ! 0) \<union> {name_cell ''_log_file'', name_cell ''_log_idx''}"
    using xb by (simp add: name_cell_def)
  have ra: "(rsa @ rsb) ! r = rsa ! r" if "r < length (d_var A)" for r
    using that la by (simp add: nth_append)
  have rb: "(rsa @ rsb) ! (length (d_var A) + r) = rsb ! r" for r
    using la by (simp add: nth_append)
  have parta: "\<forall>r<length (d_var A). length ((rsa @ rsb) ! r) = length names
          \<and> (\<forall>j<length names.
               (names ! j = name_cell ''_log_idx'' \<longrightarrow> (rsa @ rsb) ! r ! j = Scalar (SInt 0))
             \<and> (names ! j = name_cell ''_log_file'' \<longrightarrow> (rsa @ rsb) ! r ! j = Scalar (SStr fa))
             \<and> (names ! j = name_cell ''y'' \<longrightarrow> (rsa @ rsb) ! r ! j = PyNone)
             \<and> (names ! j \<in> set (ta ! 0) - {name_cell ''_log_file'', name_cell ''_log_idx''} \<longrightarrow>
                  (\<exists>k<length (ta ! 0). ta ! 0 ! k = names ! j \<and> (rsa @ rsb) ! r ! j = ta ! Suc r ! k)))"
    using pa ny by (simp add: ra)
  have partb: "\<forall>r<length (d_var B). length ((rsa @ rsb) ! (length (d_var A) + r)) = length names
          \<and> (\<forall>j<length names.
               (names ! j = name_cell ''_log_idx'' \<longrightarrow> (rsa @ rsb) ! (length (d_var A) + r) ! j = Scalar (SInt 1))
             \<and> (names ! j = name_cell ''_log_file'' \<longrightarrow> (rsa @ rsb) ! (length (d_var A) + r) ! j = Scalar (SStr fb))
             \<and> (names ! j = name_cell ''x'' \<longrightarrow> (rsa @ rsb) ! (length (d_var A) + r) ! j = PyNone)
             \<and> (names ! j \<in> set (tb ! 0) - {name_cell ''_log_file'', name_cell ''_log_idx''} \<longrightarrow>
                  (\<exists>k<length (tb ! 0). tb ! 0 ! k = names ! j
                     \<and> (rsa @ rsb) ! (length (d_var A) + r) ! j = tb ! Suc r ! k)))"
    using pb nx by (simp add: rb)
  have len: "length (rsa @ rsb) = length (d_var A) + length (d_var B)" by (simp add: la lb)
  from res sub all len parta partb show ?thesis by blast
qed

theorem merge_union_witness:
  "\<exists>names rows. logs_to_dataframe id [(''a.log'', log_a), (''b.log'', log_b)] = Inr (names, rows)
     \<and> {name_cell ''_log_idx'', name_cell ''_log_file'', name_cell ''_iteration'',
         name_cell ''x'', name_cell ''y''} \<subseteq> set names
     \<and> length rows = 3"
proof -
  have m: "name_cell ''x'' \<in> set ([[name_cell ''_iteration'', name_cell ''_iteration'', name_cell ''x''],
          [Scalar (SInt 0), Scalar (SInt 0), Scalar (SInt 5)],
          [Scalar (SInt 1), Scalar (SInt 1), Scalar (SInt 7)]] ! 0)"
    "name_cell ''y'' \<notin> set ([[name_cell ''_iteration'', name_cell ''_iteration'', name_cell ''x''],
          [Scalar (SInt 0), Scalar (SInt 0), Scalar (SInt 5)],
          [Scalar (SInt 1), Scalar (SInt 1), Scalar (SInt 7)]] ! 0)"
    "name_cell ''y'' \<in> set ([[name_cell ''_iteration'', name_cell ''_iteration'', name_cell ''y''],
          [Scalar (SInt 0), Scalar (SInt 0), Scalar (SInt 9)]] ! 0)"
    "name_cell ''x'' \<notin> set ([[name_cell ''_iteration'', name_cell ''_iteration'', name_cell ''y''],
          [Scalar (SInt 0), Scalar (SInt 0), Scalar (SInt 9)]] ! 0)"
    by (simp_all add: name_cell_def)
  have n: "length (d_var log_a) = 2" "length (d_var log_b) = 1"
    by code_simp+
  from merge_union [OF extended_log_a extended_log_b m, of "''a.log''" "''b.log''"]
  obtain names rows where
    "logs_to_dataframe id [(''a.log'', log_a), (''b.log'', log_b)] = Inr (names, rows)"
    "{name_cell ''_log_idx'', name_cell ''_log_file'', name_cell ''_iteration'',
         name_cell ''x'', name_cell ''y''} \<subseteq> set names"
    "length rows = length (d_var log_a) + length (d_var log_b)"
    by blast
  with n show ?thesis by auto
qed

end
